theory Spec2Isabelle
  imports Complex_Main "HOL-Library.Sublist"
begin

section \<open>Characters and strings\<close>

text \<open>
  Python strings are sequences of code points; a HOL \<^typ>\<open>char\<close> has eight bits. The
  contract text is modelled with one \<^typ>\<open>char\<close> per code point below 256, which covers
  every character the patterns and keywords of the program mention. The predicates below
  are Python's \<^verbatim>\<open>str.isspace\<close>, \<^verbatim>\<open>str.lower\<close> and the regular-expression classes
  restricted to that range.
\<close>

definition newline :: char where
  "newline = CHR 0x0A"

definition is_space :: "char \<Rightarrow> bool" where
  "is_space c =
     (let n = (of_char c :: nat)
      in (9 \<le> n \<and> n \<le> 13) \<or> (28 \<le> n \<and> n \<le> 32) \<or> n = 133 \<or> n = 160)"

definition is_digit :: "char \<Rightarrow> bool" where
  "is_digit c = (let n = (of_char c :: nat) in 48 \<le> n \<and> n \<le> 57)"

definition lower_char :: "char \<Rightarrow> char" where
  "lower_char c =
     (let n = (of_char c :: nat)
      in if (65 \<le> n \<and> n \<le> 90) \<or> (192 \<le> n \<and> n \<le> 222 \<and> n \<noteq> 215)
         then char_of (n + 32) else c)"

text \<open>\<^verbatim>\<open>s.lower()\<close>\<close>

definition lower :: "string \<Rightarrow> string" where
  "lower s = map lower_char s"

text \<open>\<^verbatim>\<open>s.strip()\<close>: white space removed at both ends.\<close>

definition strip :: "string \<Rightarrow> string" where
  "strip s = rev (dropWhile is_space (rev (dropWhile is_space s)))"

text \<open>\<^verbatim>\<open>sentence.endswith((':', ';'))\<close>\<close>

definition ends_with_colon :: "string \<Rightarrow> bool" where
  "ends_with_colon s = (s \<noteq> [] \<and> (last s = CHR '':'' \<or> last s = CHR '';''))"

text \<open>\<^verbatim>\<open>' '.join(parts)\<close>\<close>

fun join_spaces :: "string list \<Rightarrow> string" where
  "join_spaces [] = []"
| "join_spaces [x] = x"
| "join_spaces (x # y # ys) = x @ '' '' @ join_spaces (y # ys)"

section \<open>Regular expressions\<close>

text \<open>
  Every pattern of the program is a sequence of single characters and character classes,
  some of them under \<^verbatim>\<open>+\<close> or \<^verbatim>\<open>*\<close>. \<open>Lit\<close> is a literal character; \<open>LitNoCase\<close> is a
  literal of a pattern compiled with \<^verbatim>\<open>re.IGNORECASE\<close>; \<open>Digit\<close> is \<^verbatim>\<open>\d\<close>, \<open>Space\<close> is
  \<^verbatim>\<open>\s\<close>, \<open>Range a b\<close> is \<^verbatim>\<open>[a-b]\<close> and \<open>AnyChar\<close> is the dot, which does not match a
  newline.
\<close>

datatype atom = Lit char | LitNoCase char | Digit | Space | Range char char | AnyChar

datatype item = One atom | Plus atom | Star atom

type_synonym regex = "item list"

fun atom_matches :: "atom \<Rightarrow> char \<Rightarrow> bool" where
  "atom_matches (Lit x) c = (c = x)"
| "atom_matches (LitNoCase x) c = (lower_char c = lower_char x)"
| "atom_matches Digit c = is_digit c"
| "atom_matches Space c = is_space c"
| "atom_matches (Range a b) c = ((of_char a :: nat) \<le> of_char c \<and> (of_char c :: nat) \<le> of_char b)"
| "atom_matches AnyChar c = (c \<noteq> newline)"

text \<open>
  \<open>match_here r s\<close> is the match the backtracking matcher finds for \<open>r\<close> at the start of
  \<open>s\<close>: \<open>Some rest\<close> with the text after the match, or \<open>None\<close>. The quantifiers are
  greedy: they take one more character first and give it back only when the rest of the
  pattern fails.
\<close>

fun match_here :: "regex \<Rightarrow> string \<Rightarrow> string option" where
  "match_here [] s = Some s"
| "match_here (One a # r) [] = None"
| "match_here (One a # r) (c # cs) = (if atom_matches a c then match_here r cs else None)"
| "match_here (Plus a # r) [] = None"
| "match_here (Plus a # r) (c # cs) =
     (if atom_matches a c then match_here (Star a # r) cs else None)"
| "match_here (Star a # r) [] = match_here r []"
| "match_here (Star a # r) (c # cs) =
     (if atom_matches a c
      then (case match_here (Star a # r) cs of
              Some rest \<Rightarrow> Some rest
            | None \<Rightarrow> match_here r (c # cs))
      else match_here r (c # cs))"

text \<open>\<^verbatim>\<open>re.search(pattern, s)\<close> read as a truth value: is there a match at some position.\<close>

fun re_search :: "regex \<Rightarrow> string \<Rightarrow> bool" where
  "re_search r [] = (match_here r [] \<noteq> None)"
| "re_search r (c # cs) = (match_here r (c # cs) \<noteq> None \<or> re_search r cs)"

text \<open>
  \<^verbatim>\<open>re.split(pattern, s)\<close> for a pattern without groups: the pieces of \<open>s\<close> between the
  matches, found from left to right. \<open>piece\<close> holds, reversed, the characters read since the
  last match. Every split pattern of the program starts with a literal newline, so a match
  is never empty; a position where the match is empty is read on as an ordinary character.
\<close>

function re_split_from :: "regex \<Rightarrow> string \<Rightarrow> string \<Rightarrow> string list" where
  "re_split_from r piece [] = [rev piece]"
| "re_split_from r piece (c # cs) =
     (case match_here r (c # cs) of
        Some rest \<Rightarrow>
          if length rest < length (c # cs) then rev piece # re_split_from r [] rest
          else re_split_from r (c # piece) cs
      | None \<Rightarrow> re_split_from r (c # piece) cs)"
  by pat_completeness auto
termination
  by (relation "measure (\<lambda>(r, piece, s). length s)") auto

definition re_split :: "regex \<Rightarrow> string \<Rightarrow> string list" where
  "re_split r s = re_split_from r [] s"

text \<open>\<open>lit s\<close> is the pattern that matches the string \<open>s\<close> itself.\<close>

definition lit :: "string \<Rightarrow> regex" where
  "lit s = map (\<lambda>c. One (Lit c)) s"

definition lit_nocase :: "string \<Rightarrow> regex" where
  "lit_nocase s = map (\<lambda>c. One (LitNoCase c)) s"

section \<open>Clause extraction (utils/nlp_processor.py)\<close>

text \<open>
  The five patterns of \<^verbatim>\<open>clause_patterns\<close>, in the order of the source:
  \<^verbatim>\<open>\n\d+\.\s\<close>, \<^verbatim>\<open>\n\([a-z]\)\s\<close>, \<^verbatim>\<open>\nSECTION\s+\d+\<close>, \<^verbatim>\<open>\nARTICLE\s+\d+\<close> and
  \<^verbatim>\<open>\n\d+\.\d+\.\<close>.
\<close>

definition numbered_pattern :: regex where
  "numbered_pattern = [One (Lit newline), Plus Digit, One (Lit CHR ''.''), One Space]"

definition lettered_pattern :: regex where
  "lettered_pattern =
     [One (Lit newline), One (Lit CHR ''(''), One (Range CHR ''a'' CHR ''z''),
      One (Lit CHR '')''), One Space]"

definition section_pattern :: regex where
  "section_pattern = One (Lit newline) # lit ''SECTION'' @ [Plus Space, Plus Digit]"

definition article_pattern :: regex where
  "article_pattern = One (Lit newline) # lit ''ARTICLE'' @ [Plus Space, Plus Digit]"

definition nested_pattern :: regex where
  "nested_pattern =
     [One (Lit newline), Plus Digit, One (Lit CHR ''.''), Plus Digit, One (Lit CHR ''.'')]"

definition clause_patterns :: "regex list" where
  "clause_patterns =
     [numbered_pattern, lettered_pattern, section_pattern, article_pattern, nested_pattern]"

text \<open>The clean-up loop: each fragment is stripped and kept when it has more than 50 characters.\<close>

fun clean_clauses :: "string list \<Rightarrow> string list" where
  "clean_clauses [] = []"
| "clean_clauses (clause # rest) =
     (let clause' = strip clause
      in if length clause' > 50 then clause' # clean_clauses rest else clean_clauses rest)"

text \<open>
  The loop over the patterns: \<open>Some cleaned\<close> is the \<^verbatim>\<open>return cleaned_clauses\<close> inside the
  loop, \<open>None\<close> is the loop running to its end.
\<close>

fun try_patterns :: "regex list \<Rightarrow> string \<Rightarrow> string list option" where
  "try_patterns [] contract_text = None"
| "try_patterns (pattern # rest) contract_text =
     (let clauses = re_split pattern contract_text
      in if length clauses > 1
         then (let cleaned_clauses = clean_clauses clauses
               in if length cleaned_clauses > 3 then Some cleaned_clauses
                  else try_patterns rest contract_text)
         else try_patterns rest contract_text)"

text \<open>
  The fallback loop over the sentences; \<open>current_clause\<close> is the running group. The
  clauses come out in the order in which the source appends them.
\<close>

fun group_sentences :: "string list \<Rightarrow> string list \<Rightarrow> string list" where
  "group_sentences [] current_clause =
     (if current_clause \<noteq> [] then [join_spaces current_clause] else [])"
| "group_sentences (sentence # rest) current_clause =
     (let current_clause' = current_clause @ [sentence]
      in if length current_clause' \<ge> 3 \<or> ends_with_colon sentence
         then join_spaces current_clause' # group_sentences rest []
         else group_sentences rest current_clause')"

text \<open>
  \<^verbatim>\<open>extract_clauses\<close>. The sentence tokenizer \<^verbatim>\<open>sent_tokenize\<close> is NLTK's and not part of
  the repository: it is a parameter.
\<close>

definition extract_clauses :: "(string \<Rightarrow> string list) \<Rightarrow> string \<Rightarrow> string list" where
  "extract_clauses sent_tokenize contract_text =
     (case try_patterns clause_patterns contract_text of
        Some cleaned_clauses \<Rightarrow> cleaned_clauses
      | None \<Rightarrow> group_sentences (sent_tokenize contract_text) [])"

section \<open>Risk analysis (utils/risk_analyzer.py)\<close>

text \<open>
  \<^verbatim>\<open>self.risk_patterns\<close>: three ordered lists of patterns. They are searched with
  \<^verbatim>\<open>re.IGNORECASE\<close>, so their literals are \<open>LitNoCase\<close>; \<open>any_text\<close> is \<^verbatim>\<open>.*\<close>.
\<close>

record risk_patterns =
  high_risk :: "regex list"
  medium_risk :: "regex list"
  low_risk :: "regex list"

definition any_text :: regex where
  "any_text = [Star AnyChar]"

definition default_risk_patterns :: risk_patterns where
  "default_risk_patterns =
     \<lparr>high_risk =
        [lit_nocase ''unilateral termination'',
         lit_nocase ''exclusive jurisdiction'',
         lit_nocase ''indemnify'' @ any_text @ lit_nocase ''all losses'',
         lit_nocase ''perpetual license'',
         lit_nocase ''irrevocable'' @ any_text @ lit_nocase ''right'',
         lit_nocase ''automatic renewal'',
         lit_nocase ''liquidated damages'' @ any_text @ lit_nocase ''excessive'',
         lit_nocase ''without cause''],
      medium_risk =
        [lit_nocase ''confidentiality'' @ any_text @ lit_nocase ''indefinite'',
         lit_nocase ''non-compete'' @ any_text @ lit_nocase ''2 years'',
         lit_nocase ''arbitration'' @ any_text @ lit_nocase ''company'' @ any_text
           @ lit_nocase ''venue'',
         lit_nocase ''force majeure'' @ any_text @ lit_nocase ''broad''],
      low_risk =
        [lit_nocase ''mutual agreement'',
         lit_nocase ''reasonable'' @ any_text @ lit_nocase ''notice'',
         lit_nocase ''good faith'',
         lit_nocase ''pro rata'']\<rparr>"

text \<open>
  \<^verbatim>\<open>self.risk_categories\<close>: a dictionary, read in the order of its declaration; an
  association list keeps that order.
\<close>

definition risk_categories :: "(string \<times> string list) list" where
  "risk_categories =
     [(''Penalty Clauses'', [''penalty'', ''liquidated damages'', ''fine'', ''forfeit'']),
      (''Indemnity'', [''indemnify'', ''hold harmless'', ''defend'']),
      (''Termination'', [''terminate'', ''cancel'', ''expire'', ''renewal'']),
      (''Jurisdiction'', [''jurisdiction'', ''venue'', ''governing law'']),
      (''IP Rights'', [''intellectual property'', ''copyright'', ''patent'', ''trade secret'']),
      (''Confidentiality'', [''confidential'', ''non-disclosure'', ''proprietary''])]"

text \<open>
  One \<^verbatim>\<open>for pattern in ...: if re.search(...): return ...\<close> loop: \<open>True\<close> when the loop
  returns, at the first pattern that is found.
\<close>

fun search_patterns :: "regex list \<Rightarrow> string \<Rightarrow> bool" where
  "search_patterns [] clause_lower = False"
| "search_patterns (pattern # rest) clause_lower =
     (if re_search pattern clause_lower then True else search_patterns rest clause_lower)"

text \<open>\<^verbatim>\<open>assess_clause_risk\<close>, over the pattern lists of the analyzer.\<close>

definition assess_clause_risk_with :: "risk_patterns \<Rightarrow> string \<Rightarrow> string" where
  "assess_clause_risk_with patterns clause_text =
     (let clause_lower = lower clause_text
      in if search_patterns (high_risk patterns) clause_lower then ''High''
         else if search_patterns (medium_risk patterns) clause_lower then ''Medium''
         else ''Low'')"

definition assess_clause_risk :: "string \<Rightarrow> string" where
  "assess_clause_risk = assess_clause_risk_with default_risk_patterns"

text \<open>
  \<^verbatim>\<open>get_risk_category\<close>: the inner loop over the keywords of one category, and the outer
  loop over the categories. \<^verbatim>\<open>keyword in clause_lower\<close> is the substring test,
  \<^const>\<open>sublist\<close>.
\<close>

fun keyword_found :: "string list \<Rightarrow> string \<Rightarrow> bool" where
  "keyword_found [] clause_lower = False"
| "keyword_found (keyword # rest) clause_lower =
     (if sublist keyword clause_lower then True else keyword_found rest clause_lower)"

fun category_loop :: "(string \<times> string list) list \<Rightarrow> string \<Rightarrow> string" where
  "category_loop [] clause_lower = ''General''"
| "category_loop ((category, keywords) # rest) clause_lower =
     (if keyword_found keywords clause_lower then category
      else category_loop rest clause_lower)"

definition get_risk_category :: "string \<Rightarrow> string" where
  "get_risk_category clause_text = category_loop risk_categories (lower clause_text)"

text \<open>
  One result of the analysis, the dictionary built in \<^verbatim>\<open>app.py\<close>: the fields are its keys
  \<^verbatim>\<open>Clause #\<close>, \<^verbatim>\<open>Text\<close>, \<^verbatim>\<open>Risk Level\<close>, \<^verbatim>\<open>Risk Category\<close>, \<^verbatim>\<open>Explanation\<close> and
  \<^verbatim>\<open>Suggestion\<close>.
\<close>

record clause_analysis =
  clause_number :: nat
  text_field :: string
  risk_level :: string
  risk_category :: string
  explanation :: string
  suggestion :: string

text \<open>
  \<^verbatim>\<open>calculate_overall_risk\<close>. \<open>score_of\<close> is \<^verbatim>\<open>risk_scores.get(level, 1)\<close>. The average
  is a quotient of two integers and is compared with 2.5 and 1.5, which floating point
  holds exactly; the comparisons agree with those of the exact quotient for every list of
  fewer than \<open>2 ^ 50\<close> results, and the model computes with rationals.
\<close>

definition risk_scores :: "(string \<times> int) list" where
  "risk_scores = [(''High'', 3), (''Medium'', 2), (''Low'', 1)]"

definition score_of :: "string \<Rightarrow> int" where
  "score_of level = (case map_of risk_scores level of Some score \<Rightarrow> score | None \<Rightarrow> 1)"

fun score_loop :: "clause_analysis list \<Rightarrow> int \<Rightarrow> int" where
  "score_loop [] total_score = total_score"
| "score_loop (result # rest) total_score =
     score_loop rest (total_score + score_of (risk_level result))"

definition calculate_overall_risk :: "clause_analysis list \<Rightarrow> string" where
  "calculate_overall_risk results =
     (let avg_score =
            (if results \<noteq> [] then rat_of_int (score_loop results 0) / rat_of_nat (length results)
             else 1)
      in if avg_score \<ge> 5 / 2 then ''High Risk''
         else if avg_score \<ge> 3 / 2 then ''Medium Risk''
         else ''Low Risk'')"

subsection \<open>Explanations and suggestions\<close>

text \<open>
  The chat-completion service is outside the program. One call of
  \<^verbatim>\<open>self.client.chat.completions.create\<close> is modelled by its request and its outcome:
  the request names which of the two fixed prompts is sent and the clause text put into
  it; the outcome is the text of the first choice, or the type name of the exception that
  the call or the reading of its response raised (\<^verbatim>\<open>type(e).__name__\<close>). The service may
  answer the same request differently at different times, so a client is a function of
  the number of calls made before. The functions below take that number and return it
  updated: it counts the calls they make.
\<close>

datatype request = ExplainRequest string | SuggestRequest string

datatype outcome = Completed string | Raised string

type_synonym client = "nat \<Rightarrow> request \<Rightarrow> outcome"

text \<open>
  The analyzer's view of the service: the module flag \<^verbatim>\<open>HAS_OPENAI\<close> and \<^verbatim>\<open>self.client\<close>,
  which is \<^verbatim>\<open>None\<close> when no key is configured.
\<close>

record analyzer =
  has_openai :: bool
  self_client :: "client option"

text \<open>
  The messages start with a warning sign, the code points U+26A0 U+FE0F; they lie outside
  the range of \<^typ>\<open>char\<close> and are written as the six bytes of their UTF-8 encoding.
  Nothing in the program measures or lower-cases a message.
\<close>

definition warning_sign :: string where
  "warning_sign = [CHR 0xE2, CHR 0x9A, CHR 0xA0, CHR 0xEF, CHR 0xB8, CHR 0x8F]"

definition explain_not_configured :: string where
  "explain_not_configured = warning_sign
     @ '' OpenAI API not configured. Set OPENAI_API_KEY environment variable to enable AI explanations.''"

definition suggest_not_configured :: string where
  "suggest_not_configured = warning_sign
     @ '' OpenAI API not configured. Set OPENAI_API_KEY environment variable to enable suggestions.''"

definition authentication_failed :: string where
  "authentication_failed = warning_sign
     @ '' OpenAI authentication failed. Check your OPENAI_API_KEY is valid.''"

definition rate_limit_exceeded :: string where
  "rate_limit_exceeded = warning_sign
     @ '' OpenAI rate limit exceeded. Please try again later.''"

definition explain_unavailable :: "string \<Rightarrow> string" where
  "explain_unavailable error_name =
     warning_sign @ '' Unable to generate explanation: '' @ error_name"

definition suggest_unavailable :: "string \<Rightarrow> string" where
  "suggest_unavailable error_name =
     warning_sign @ '' Suggestions unavailable: '' @ error_name"

definition explain_clause :: "analyzer \<Rightarrow> string \<Rightarrow> nat \<Rightarrow> string \<times> nat" where
  "explain_clause self clause_text calls =
     (case self_client self of
        None \<Rightarrow> (explain_not_configured, calls)
      | Some create \<Rightarrow>
          if \<not> has_openai self then (explain_not_configured, calls)
          else (case create calls (ExplainRequest clause_text) of
                  Completed content \<Rightarrow> (strip content, Suc calls)
                | Raised error_name \<Rightarrow>
                    (if sublist ''AuthenticationError'' error_name then authentication_failed
                     else if sublist ''RateLimitError'' error_name then rate_limit_exceeded
                     else explain_unavailable error_name,
                     Suc calls)))"

definition suggest_alternative :: "analyzer \<Rightarrow> string \<Rightarrow> nat \<Rightarrow> string \<times> nat" where
  "suggest_alternative self clause_text calls =
     (case self_client self of
        None \<Rightarrow> (suggest_not_configured, calls)
      | Some create \<Rightarrow>
          if \<not> has_openai self then (suggest_not_configured, calls)
          else (case create calls (SuggestRequest clause_text) of
                  Completed content \<Rightarrow> (strip content, Suc calls)
                | Raised error_name \<Rightarrow>
                    (if sublist ''AuthenticationError'' error_name then authentication_failed
                     else if sublist ''RateLimitError'' error_name then rate_limit_exceeded
                     else suggest_unavailable error_name,
                     Suc calls)))"

section \<open>The analysis loop (app.py)\<close>

text \<open>
  The loop \<^verbatim>\<open>for i, clause in enumerate(clauses)\<close>: \<open>i\<close> is the index of the first clause of
  the list, \<open>calls\<close> the number of calls to the service made so far. The result is the list
  \<^verbatim>\<open>results\<close> and the number of calls after the loop.
\<close>

fun analyze_clauses ::
  "analyzer \<Rightarrow> nat \<Rightarrow> string list \<Rightarrow> nat \<Rightarrow> clause_analysis list \<times> nat" where
  "analyze_clauses analyzer i [] calls = ([], calls)"
| "analyze_clauses analyzer i (clause # rest) calls =
     (let risk_score = assess_clause_risk clause;
          (explanation_text, calls1) = explain_clause analyzer clause calls;
          (suggestion_text, calls2) = suggest_alternative analyzer clause calls1;
          result = \<lparr>clause_number = i + 1,
                    text_field = take 100 clause @ ''...'',
                    risk_level = risk_score,
                    risk_category = get_risk_category clause,
                    explanation = explanation_text,
                    suggestion = suggestion_text\<rparr>;
          (results, calls3) = analyze_clauses analyzer (i + 1) rest calls2
      in (result # results, calls3))"

text \<open>
  One run of the analysis on a contract text: the results of the loop over the extracted
  clauses, and the overall risk computed from them.
\<close>

definition analyze_contract ::
  "analyzer \<Rightarrow> (string \<Rightarrow> string list) \<Rightarrow> string \<Rightarrow> clause_analysis list \<times> string" where
  "analyze_contract analyzer sent_tokenize contract_text =
     (let clauses = extract_clauses sent_tokenize contract_text;
          results = fst (analyze_clauses analyzer 0 clauses 0)
      in (results, calculate_overall_risk results))"

section \<open>Notions of the specification and example inputs\<close>

text \<open>
  The weight of a risk level as the specification gives it: High 3, Medium 2, Low 1, and 1
  for any other level; and the mean weight of a sequence of levels, 1 for the empty one.
\<close>

definition level_weight :: "string \<Rightarrow> rat" where
  "level_weight level =
     (if level = ''High'' then 3 else if level = ''Medium'' then 2
      else if level = ''Low'' then 1 else 1)"

definition mean_weight :: "string list \<Rightarrow> rat" where
  "mean_weight levels =
     (if levels = [] then 1
      else sum_list (map level_weight levels) / rat_of_nat (length levels))"

text \<open>A result that carries a given risk level, for running the scorer on a list of levels.\<close>

definition result_with_level :: "string \<Rightarrow> clause_analysis" where
  "result_with_level level =
     \<lparr>clause_number = 1, text_field = ''...'', risk_level = level,
      risk_category = ''General'', explanation = [], suggestion = []\<rparr>"

text \<open>Clause texts on which the classifiers are run below.\<close>

definition both_risks_clause :: string where
  "both_risks_clause =
     ''Unilateral termination is allowed, and force majeure broad events excuse the Vendor.''"

definition mutual_agreement_clause :: string where
  "mutual_agreement_clause = ''Either party may renew by mutual agreement.''"

definition penalty_indemnify_clause :: string where
  "penalty_indemnify_clause =
     ''The Supplier shall pay a Penalty and shall indemnify the Buyer.''"

definition plain_clause :: string where
  "plain_clause = ''Payment is due monthly.''"

definition long_clause :: string where
  "long_clause = ''The Vendor shall indemnify the Client against all losses arising from any breach of this agreement by the Vendor or its agents.''"

text \<open>
  Two analyzers for running the analysis loop: one without a client, and one whose client
  fails on its first three calls, with an authentication error, a rate-limit error and a
  connection error, and answers from then on.
\<close>

definition unconfigured_analyzer :: analyzer where
  "unconfigured_analyzer = \<lparr>has_openai = False, self_client = None\<rparr>"

definition failing_client :: client where
  "failing_client calls request =
     (if calls = 0 then Raised ''AuthenticationError''
      else if calls = 1 then Raised ''RateLimitError''
      else if calls = 2 then Raised ''APIConnectionError''
      else Completed '' A balanced wording. '')"

definition failing_analyzer :: analyzer where
  "failing_analyzer = \<lparr>has_openai = True, self_client = Some failing_client\<rparr>"

text \<open>
  The fragments of one pattern that qualify, in the words of the specification: the text
  is split on every occurrence of the pattern, each fragment is trimmed, and the fragments
  of trimmed length 50 or less are discarded.
\<close>

definition surviving_fragments :: "regex \<Rightarrow> string \<Rightarrow> string list" where
  "surviving_fragments pattern contract_text =
     filter (\<lambda>fragment. length fragment > 50) (map strip (re_split pattern contract_text))"

text \<open>The groups of sentences that the fallback loop closes, before they are joined.\<close>

fun sentence_groups :: "string list \<Rightarrow> string list \<Rightarrow> string list list" where
  "sentence_groups [] current_clause = (if current_clause \<noteq> [] then [current_clause] else [])"
| "sentence_groups (sentence # rest) current_clause =
     (let current_clause' = current_clause @ [sentence]
      in if length current_clause' \<ge> 3 \<or> ends_with_colon sentence
         then current_clause' # sentence_groups rest []
         else sentence_groups rest current_clause')"

text \<open>
  A sentence splitter for running the fallback on a concrete text: a sentence ends at a
  full stop that is followed by white space or by the end of the text, and sentences are
  trimmed. It is not part of the program and stands in for the tokenizer only in closed
  examples; every general statement below holds for any tokenizer.
\<close>

fun full_stop_sentences :: "string \<Rightarrow> string \<Rightarrow> string list" where
  "full_stop_sentences current [] =
     (if strip (rev current) = [] then [] else [strip (rev current)])"
| "full_stop_sentences current (c # cs) =
     (if c = CHR ''.'' \<and> (case cs of [] \<Rightarrow> True | d # _ \<Rightarrow> is_space d)
      then strip (rev (c # current)) # full_stop_sentences [] cs
      else full_stop_sentences (c # current) cs)"

definition full_stop_tokenize :: "string \<Rightarrow> string list" where
  "full_stop_tokenize contract_text = full_stop_sentences [] contract_text"

text \<open>
  Contract texts for the examples: sub-clauses marked by letters; numbered clauses of which
  the third is short; the scenario of the specification with every clause padded to more
  than 50 characters, once with each numbered clause on a line of its own and once on a
  single line; and a list of sentences for the fallback.
\<close>

definition lettered_text :: string where
  "lettered_text =
     ''This Agreement sets out the terms agreed between the Supplier and the Buyer.''
     @ [newline] @ ''(a) The Supplier shall deliver the goods to the Buyer within thirty days.''
     @ [newline] @ ''(b) The Buyer shall pay the price within fourteen days of delivery.''
     @ [newline] @ ''(c) Title to the goods passes to the Buyer on payment in full.''
     @ [newline] @ ''(d) Either party may end this Agreement by written notice.''"

definition dropped_fragment_text :: string where
  "dropped_fragment_text =
     ''1. The Supplier shall deliver the goods to the Buyer within thirty days.''
     @ [newline] @ ''2. The Buyer shall pay the price within fourteen days of delivery.''
     @ [newline] @ ''3. Fees: see Annex Z.''
     @ [newline] @ ''4. Title to the goods passes to the Buyer on payment in full.''
     @ [newline] @ ''5. Either party may end this Agreement by giving written notice.''"

definition scenario_text :: string where
  "scenario_text =
     ''1. The Employer may terminate without cause, as set out in the schedule to this agreement.''
     @ [newline] @ ''2. Confidentiality shall be indefinite, as set out in the schedule to this agreement.''
     @ [newline] @ ''3. Payment is due monthly, as set out in the schedule to this agreement.''
     @ [newline] @ ''4. Either party may renew by mutual agreement, as set out in the schedule to this agreement.''"

definition scenario_line :: string where
  "scenario_line =
     ''1. The Employer may terminate without cause, as set out in the schedule to this agreement.''
     @ '' '' @ ''2. Confidentiality shall be indefinite, as set out in the schedule to this agreement.''
     @ '' '' @ ''3. Payment is due monthly, as set out in the schedule to this agreement.''
     @ '' '' @ ''4. Either party may renew by mutual agreement, as set out in the schedule to this agreement.''"

definition fallback_sentences :: "string list" where
  "fallback_sentences =
     [''The parties agree as follows:'',
      ''Payment is due monthly.'',
      ''Invoices are sent by post.'',
      ''Interest accrues daily.'',
      ''Notices are sent by email.'']"

text \<open>
  What it means for a pattern to match a whole string, stated without reference to the
  matcher: the items of the pattern match consecutive parts of the string, \<open>One\<close> a single
  character, \<open>Plus\<close> one or more and \<open>Star\<close> any number of characters of its class.
\<close>

fun accepts :: "regex \<Rightarrow> string \<Rightarrow> bool" where
  "accepts [] w = (w = [])"
| "accepts (One a # r) w = (\<exists>c v. w = c # v \<and> atom_matches a c \<and> accepts r v)"
| "accepts (Plus a # r) w =
     (\<exists>u v. w = u @ v \<and> u \<noteq> [] \<and> (\<forall>c\<in>set u. atom_matches a c) \<and> accepts r v)"
| "accepts (Star a # r) w =
     (\<exists>u v. w = u @ v \<and> (\<forall>c\<in>set u. atom_matches a c) \<and> accepts r v)"

section \<open>The matcher\<close>

text \<open>
  The backtracking matcher finds a match at the start of a string exactly when some prefix
  of the string matches the pattern, and \<open>re_search\<close> holds exactly when some part of the
  string does. A split pattern of the program never matches the empty string, so the
  branch of \<open>re_split_from\<close> for an empty match is never taken for it.
\<close>

lemma match_here_sound:
  "match_here r s = Some rest \<Longrightarrow> \<exists>w. s = w @ rest \<and> accepts r w"
proof (induction r s arbitrary: rest rule: match_here.induct)
  case (1 s)
  then show ?case by simp
next
  case (2 a r)
  then show ?case by simp
next
  case (3 a r c cs)
  then show ?case by (auto split: if_splits)
next
  case (4 a r)
  then show ?case by simp
next
  case (5 a r c cs)
  from "5.prems" have ok: "atom_matches a c"
    and "match_here (Star a # r) cs = Some rest"
    by (auto split: if_splits)
  with "5.IH" obtain u v where "cs = (u @ v) @ rest" "\<forall>x\<in>set u. atom_matches a x" "accepts r v"
    by fastforce
  with ok have "c # cs = ((c # u) @ v) @ rest \<and> c # u \<noteq> []
      \<and> (\<forall>x\<in>set (c # u). atom_matches a x) \<and> accepts r v"
    by simp
  then show ?case by (metis accepts.simps(3))
next
  case (6 a r)
  then obtain w where "[] = w @ rest" "accepts r w" by fastforce
  then have "[] = ([] @ w) @ rest \<and> (\<forall>x\<in>set []. atom_matches a x) \<and> accepts r w" by simp
  then show ?case by (metis accepts.simps(4))
next
  case (7 a r c cs)
  show ?case
  proof (cases "atom_matches a c \<and> match_here (Star a # r) cs \<noteq> None")
    case True
    with "7.prems" have "match_here (Star a # r) cs = Some rest" by auto
    with "7.IH"(1) True obtain u v
      where "cs = (u @ v) @ rest" "\<forall>x\<in>set u. atom_matches a x" "accepts r v"
      by fastforce
    with True have "c # cs = ((c # u) @ v) @ rest
        \<and> (\<forall>x\<in>set (c # u). atom_matches a x) \<and> accepts r v"
      by simp
    then show ?thesis by (metis accepts.simps(4))
  next
    case False
    with "7.prems" have here: "match_here r (c # cs) = Some rest"
      by (auto split: if_splits option.splits)
    from False have "\<not> atom_matches a c \<or> (atom_matches a c \<and> match_here (Star a # r) cs = None)"
      by auto
    then obtain w where "c # cs = w @ rest" "accepts r w"
      using "7.IH"(2,3) here by blast
    then have "c # cs = ([] @ w) @ rest \<and> (\<forall>x\<in>set []. atom_matches a x) \<and> accepts r w"
      by simp
    then show ?thesis by (metis accepts.simps(4))
  qed
qed

lemma match_here_complete_prefix:
  "accepts r w \<Longrightarrow> prefix w s \<Longrightarrow> match_here r s \<noteq> None"
proof (induction r s arbitrary: w rule: match_here.induct)
  case (1 s)
  then show ?case by simp
next
  case (2 a r)
  then show ?case by auto
next
  case (3 a r c cs)
  then show ?case by auto
next
  case (4 a r)
  then show ?case by auto
next
  case (5 a r c cs)
  from "5.prems"(1) obtain u v where w: "w = u @ v" "u \<noteq> []"
    "\<forall>x\<in>set u. atom_matches a x" "accepts r v" by auto
  from w(2) obtain d u' where u: "u = d # u'" by (cases u) auto
  with w "5.prems"(2) have d: "d = c" and pre: "prefix (u' @ v) cs" by auto
  from w u d have ok: "atom_matches a c" by simp
  from w u have "accepts (Star a # r) (u' @ v)" by auto
  from "5.IH" [OF ok this pre] ok show ?case by simp
next
  case (6 a r)
  then show ?case by auto
next
  case (7 a r c cs)
  from "7.prems"(1) obtain u v where w: "w = u @ v" "\<forall>x\<in>set u. atom_matches a x"
    "accepts r v" by auto
  show ?case
  proof (cases u)
    case Nil
    with w have rw: "accepts r w" by simp
    show ?thesis
    proof (cases "atom_matches a c")
      case True
      show ?thesis
      proof (cases "match_here (Star a # r) cs")
        case None
        from "7.IH"(2) [OF True None rw "7.prems"(2)] True None show ?thesis by simp
      next
        case (Some y)
        with True show ?thesis by simp
      qed
    next
      case False
      from "7.IH"(3) [OF False rw "7.prems"(2)] False show ?thesis by simp
    qed
  next
    case (Cons d u')
    with w "7.prems"(2) have d: "d = c" and pre: "prefix (u' @ v) cs" by auto
    from w Cons d have ok: "atom_matches a c" by simp
    from w Cons have "accepts (Star a # r) (u' @ v)" by auto
    from "7.IH"(1) [OF ok this pre] ok show ?thesis by (auto split: option.splits)
  qed
qed

lemma match_here_complete:
  "accepts r w \<Longrightarrow> match_here r (w @ rest) \<noteq> None"
  using match_here_complete_prefix [of r w "w @ rest"] by simp

lemma match_here_iff:
  "match_here r s \<noteq> None \<longleftrightarrow> (\<exists>w rest. s = w @ rest \<and> accepts r w)"
  using match_here_sound match_here_complete by (metis not_None_eq)

lemma re_search_iff:
  "re_search r s \<longleftrightarrow> (\<exists>before w rest. s = before @ w @ rest \<and> accepts r w)"
proof (induction s)
  case Nil
  show ?case
    using match_here_sound [of r "[]"] match_here_complete [of r "[]" "[]"]
    by auto
next
  case (Cons c cs)
  show ?case
  proof
    assume "re_search r (c # cs)"
    then consider "match_here r (c # cs) \<noteq> None" | "re_search r cs" by auto
    then show "\<exists>before w rest. c # cs = before @ w @ rest \<and> accepts r w"
    proof cases
      case 1
      then obtain y where "match_here r (c # cs) = Some y" by auto
      from match_here_sound [OF this] obtain w where "c # cs = [] @ w @ y" "accepts r w"
        by auto
      then show ?thesis by blast
    next
      case 2
      with Cons obtain before w rest where "cs = before @ w @ rest" "accepts r w" by blast
      then have "c # cs = (c # before) @ w @ rest" by simp
      with \<open>accepts r w\<close> show ?thesis by blast
    qed
  next
    assume "\<exists>before w rest. c # cs = before @ w @ rest \<and> accepts r w"
    then obtain before w rest where s: "c # cs = before @ w @ rest" and w: "accepts r w"
      by blast
    show "re_search r (c # cs)"
    proof (cases before)
      case Nil
      with s have "c # cs = w @ rest" by simp
      with match_here_complete [OF w, of rest] have "match_here r (c # cs) \<noteq> None"
        by simp
      then show ?thesis by simp
    next
      case (Cons d before')
      with s have "cs = before' @ w @ rest" by simp
      with w Cons.IH have "re_search r cs" by blast
      then show ?thesis by simp
    qed
  qed
qed

lemma match_here_suffix:
  "match_here r s = Some rest \<Longrightarrow> length rest \<le> length s"
  using match_here_sound by fastforce

lemma clause_pattern_consumes:
  "p \<in> set clause_patterns \<Longrightarrow> match_here p s = Some rest \<Longrightarrow> length rest < length s"
proof -
  assume "p \<in> set clause_patterns"
  then obtain r where p: "p = One (Lit newline) # r"
    by (auto simp add: clause_patterns_def numbered_pattern_def lettered_pattern_def
      section_pattern_def article_pattern_def nested_pattern_def)
  assume "match_here p s = Some rest"
  with p obtain cs where "s = newline # cs" "match_here r cs = Some rest"
    by (cases s) (auto split: if_splits)
  with match_here_suffix [of r cs rest] show ?thesis by simp
qed

section \<open>The aggregate score\<close>

lemma score_of_weight: "rat_of_int (score_of level) = level_weight level"
  by (simp add: score_of_def risk_scores_def level_weight_def)

lemma score_loop_sum:
  "score_loop results total_score =
     total_score + sum_list (map (\<lambda>r. score_of (risk_level r)) results)"
  by (induction results arbitrary: total_score) simp_all

lemma avg_score_mean:
  "(if results \<noteq> [] then rat_of_int (score_loop results 0) / rat_of_nat (length results)
    else 1)
     = mean_weight (map risk_level results)"
proof -
  have "rat_of_int (sum_list (map (\<lambda>r. score_of (risk_level r)) results))
          = sum_list (map level_weight (map risk_level results))"
    by (induction results) (simp_all add: score_of_weight)
  then show ?thesis
    by (simp add: mean_weight_def score_loop_sum)
qed

lemma overall_by_mean:
  "calculate_overall_risk results =
     (if mean_weight (map risk_level results) \<ge> 5 / 2 then ''High Risk''
      else if mean_weight (map risk_level results) \<ge> 3 / 2 then ''Medium Risk''
      else ''Low Risk'')"
  unfolding calculate_overall_risk_def avg_score_mean Let_def ..

text \<open>
  Claim C3. The overall risk is decided by the mean weight of the risk levels of the
  results (High 3, Medium 2, Low 1, any other level 1, and mean 1 for no results): it is
  \<open>High Risk\<close> exactly when the mean is at least 2.5, \<open>Medium Risk\<close> exactly when the mean
  is at least 1.5 and below 2.5, and \<open>Low Risk\<close> exactly when the mean is below 1.5. So
  Medium, Medium and High, High, Low give \<open>Medium Risk\<close>, High, High gives \<open>High Risk\<close>, a
  mean of exactly 1.5 gives \<open>Medium Risk\<close>, and no results give \<open>Low Risk\<close>.
\<close>

theorem overall_risk_bands:
  "(calculate_overall_risk results = ''High Risk''
      \<longleftrightarrow> 5 / 2 \<le> mean_weight (map risk_level results))
   \<and> (calculate_overall_risk results = ''Medium Risk''
      \<longleftrightarrow> 3 / 2 \<le> mean_weight (map risk_level results)
          \<and> mean_weight (map risk_level results) < 5 / 2)
   \<and> (calculate_overall_risk results = ''Low Risk''
      \<longleftrightarrow> mean_weight (map risk_level results) < 3 / 2)
   \<and> (map risk_level results = [''Medium'', ''Medium'']
      \<longrightarrow> calculate_overall_risk results = ''Medium Risk'')
   \<and> (map risk_level results = [''High'', ''High'', ''Low'']
      \<longrightarrow> calculate_overall_risk results = ''Medium Risk'')
   \<and> (map risk_level results = [''High'', ''High'']
      \<longrightarrow> calculate_overall_risk results = ''High Risk'')
   \<and> (mean_weight (map risk_level results) = 3 / 2
      \<longrightarrow> calculate_overall_risk results = ''Medium Risk'')
   \<and> (results = [] \<longrightarrow> calculate_overall_risk results = ''Low Risk'')"
  by (simp add: overall_by_mean mean_weight_def level_weight_def)

theorem overall_risk_bands_witness:
  "calculate_overall_risk (map result_with_level [''High'', ''High'', ''Low'']) = ''Medium Risk''
   \<and> calculate_overall_risk (map result_with_level [''Medium'', ''Low'']) = ''Medium Risk''
   \<and> mean_weight [''Medium'', ''Low''] = 3 / 2
   \<and> calculate_overall_risk (map result_with_level [''Medium'', ''Medium'']) = ''Medium Risk''
   \<and> calculate_overall_risk (map result_with_level [''High'', ''High'']) = ''High Risk''
   \<and> calculate_overall_risk (map result_with_level [''Urgent'', ''Low'']) = ''Low Risk''
   \<and> calculate_overall_risk [] = ''Low Risk''"
  using overall_risk_bands [of "map result_with_level [''High'', ''High'', ''Low'']"]
    overall_risk_bands [of "map result_with_level [''Medium'', ''Low'']"]
    overall_risk_bands [of "map result_with_level [''Medium'', ''Medium'']"]
    overall_risk_bands [of "map result_with_level [''High'', ''High'']"]
    overall_risk_bands [of "map result_with_level [''Urgent'', ''Low'']"]
    overall_risk_bands [of "[]"]
  by (simp add: result_with_level_def mean_weight_def level_weight_def)

section \<open>The risk level of a clause\<close>

lemma search_patterns_iff:
  "search_patterns patterns s \<longleftrightarrow> (\<exists>p\<in>set patterns. re_search p s)"
  by (induction patterns) auto

lemma assess_by_lists:
  "assess_clause_risk_with rules clause =
     (if \<exists>p\<in>set (high_risk rules). re_search p (lower clause) then ''High''
      else if \<exists>p\<in>set (medium_risk rules). re_search p (lower clause) then ''Medium''
      else ''Low'')"
  by (simp add: assess_clause_risk_with_def search_patterns_iff Let_def)

lemma assess_ignores_low_risk:
  "assess_clause_risk_with (rules\<lparr>low_risk := other\<rparr>) clause
     = assess_clause_risk_with rules clause"
  by (simp add: assess_by_lists)

text \<open>
  Claim C2. The risk level of a clause is \<open>High\<close> when some High-risk pattern is found in
  the lower-cased text, otherwise \<open>Medium\<close> when some Medium-risk pattern is found, and
  \<open>Low\<close> otherwise. A pattern of the High list that is found decides for \<open>High\<close> whatever
  patterns stand before or after it and whatever the Medium list holds; a pattern of the
  Medium list that is found decides for \<open>Medium\<close> when no High pattern is found. So a clause
  in which both a High-risk and a Medium-risk pattern are found is \<open>High\<close>.
\<close>

theorem classify_risk_priority:
  "assess_clause_risk clause =
     (if \<exists>p\<in>set (high_risk default_risk_patterns). re_search p (lower clause) then ''High''
      else if \<exists>p\<in>set (medium_risk default_risk_patterns). re_search p (lower clause)
           then ''Medium''
      else ''Low'')
   \<and> (re_search p (lower clause) \<longrightarrow>
        assess_clause_risk_with
          \<lparr>high_risk = earlier @ p # later, medium_risk = medium, low_risk = low\<rparr> clause
        = ''High'')
   \<and> ((\<forall>p\<in>set high. \<not> re_search p (lower clause)) \<and> re_search q (lower clause) \<longrightarrow>
        assess_clause_risk_with
          \<lparr>high_risk = high, medium_risk = earlier @ q # later, low_risk = low\<rparr> clause
        = ''Medium'')
   \<and> ((\<exists>p\<in>set (high_risk default_risk_patterns). re_search p (lower clause))
        \<and> (\<exists>q\<in>set (medium_risk default_risk_patterns). re_search q (lower clause))
      \<longrightarrow> assess_clause_risk clause = ''High'')"
  by (auto simp add: assess_clause_risk_def assess_by_lists)

theorem classify_risk_priority_witness:
  "(\<exists>p\<in>set (high_risk default_risk_patterns). re_search p (lower both_risks_clause))
   \<and> (\<exists>q\<in>set (medium_risk default_risk_patterns). re_search q (lower both_risks_clause))
   \<and> assess_clause_risk both_risks_clause = ''High''"
proof -
  have high: "\<exists>p\<in>set (high_risk default_risk_patterns). re_search p (lower both_risks_clause)"
    by code_simp
  have medium:
    "\<exists>q\<in>set (medium_risk default_risk_patterns). re_search q (lower both_risks_clause)"
    by code_simp
  from high medium classify_risk_priority [of both_risks_clause]
  show ?thesis by blast
qed

text \<open>
  Claim C10. The risk level is \<open>Low\<close> exactly when no High-risk and no Medium-risk pattern
  is found. The \<open>low_risk\<close> list is never read: replacing it by any other list leaves the
  level of every clause unchanged. The clause \<open>Either party may renew by mutual
  agreement.\<close> matches a pattern of the \<open>low_risk\<close> list and is \<open>Low\<close>, and it is \<open>Low\<close> as
  well when the \<open>low_risk\<close> list is empty.
\<close>

theorem low_is_the_default:
  "(assess_clause_risk_with rules clause = ''Low''
      \<longleftrightarrow> \<not> (\<exists>p\<in>set (high_risk rules). re_search p (lower clause))
          \<and> \<not> (\<exists>p\<in>set (medium_risk rules). re_search p (lower clause)))
   \<and> assess_clause_risk_with (rules\<lparr>low_risk := other\<rparr>) clause
       = assess_clause_risk_with rules clause
   \<and> (assess_clause_risk clause = ''Low''
      \<longleftrightarrow> \<not> (\<exists>p\<in>set (high_risk default_risk_patterns). re_search p (lower clause))
          \<and> \<not> (\<exists>p\<in>set (medium_risk default_risk_patterns). re_search p (lower clause)))
   \<and> assess_clause_risk clause
       = assess_clause_risk_with (default_risk_patterns\<lparr>low_risk := other\<rparr>) clause
   \<and> search_patterns (low_risk default_risk_patterns) (lower mutual_agreement_clause)
   \<and> assess_clause_risk mutual_agreement_clause = ''Low''
   \<and> assess_clause_risk_with (default_risk_patterns\<lparr>low_risk := []\<rparr>) mutual_agreement_clause
       = ''Low''"
proof -
  have found: "search_patterns (low_risk default_risk_patterns) (lower mutual_agreement_clause)"
    by code_simp
  have low: "assess_clause_risk mutual_agreement_clause = ''Low''"
    by code_simp
  have low': "assess_clause_risk_with (default_risk_patterns\<lparr>low_risk := []\<rparr>)
      mutual_agreement_clause = ''Low''"
    using low by (simp add: assess_ignores_low_risk assess_clause_risk_def)
  have iff: "assess_clause_risk_with r c = ''Low''
      \<longleftrightarrow> \<not> (\<exists>p\<in>set (high_risk r). re_search p (lower c))
          \<and> \<not> (\<exists>p\<in>set (medium_risk r). re_search p (lower c))" for r c
    by (simp add: assess_by_lists)
  show ?thesis
    using found low low' iff [of rules clause] iff [of default_risk_patterns clause]
    by (simp add: assess_ignores_low_risk assess_clause_risk_def)
qed

section \<open>The risk category of a clause\<close>

lemma keyword_found_iff:
  "keyword_found ks s \<longleftrightarrow> (\<exists>k\<in>set ks. sublist k s)"
  by (induction ks) auto

lemma category_loop_find:
  "category_loop categories s =
     (case find (\<lambda>(category, keywords). \<exists>k\<in>set keywords. sublist k s) categories of
        Some (category, keywords) \<Rightarrow> category
      | None \<Rightarrow> ''General'')"
  by (induction categories s rule: category_loop.induct) (simp_all add: keyword_found_iff)

lemma sublist_lower: "sublist k s \<Longrightarrow> sublist (lower k) (lower s)"
  unfolding lower_def by (rule map_mono_sublist)

text \<open>
  Claim C5. The risk category of a clause is the first category, in the declared order
  Penalty Clauses, Indemnity, Termination, Jurisdiction, IP Rights, Confidentiality, one
  of whose keywords is a substring of the lower-cased text, and \<open>General\<close> when no keyword
  of any category is. A clause that contains both \<open>penalty\<close> and \<open>indemnify\<close> is in
  \<open>Penalty Clauses\<close>.
\<close>

theorem category_order:
  "get_risk_category clause =
     (case find (\<lambda>(category, keywords). \<exists>k\<in>set keywords. sublist k (lower clause))
             risk_categories of
        Some (category, keywords) \<Rightarrow> category
      | None \<Rightarrow> ''General'')
   \<and> map fst risk_categories =
       [''Penalty Clauses'', ''Indemnity'', ''Termination'', ''Jurisdiction'', ''IP Rights'',
        ''Confidentiality'']
   \<and> ((\<forall>(category, keywords)\<in>set risk_categories.
          \<forall>k\<in>set keywords. \<not> sublist k (lower clause))
      \<longrightarrow> get_risk_category clause = ''General'')
   \<and> (sublist ''penalty'' (lower clause) \<and> sublist ''indemnify'' (lower clause)
      \<longrightarrow> get_risk_category clause = ''Penalty Clauses'')
   \<and> (sublist ''penalty'' clause \<and> sublist ''indemnify'' clause
      \<longrightarrow> get_risk_category clause = ''Penalty Clauses'')"
proof -
  have first: "get_risk_category clause =
     (case find (\<lambda>(category, keywords). \<exists>k\<in>set keywords. sublist k (lower clause))
             risk_categories of
        Some (category, keywords) \<Rightarrow> category
      | None \<Rightarrow> ''General'')"
    by (simp add: get_risk_category_def category_loop_find)
  have names: "map fst risk_categories =
       [''Penalty Clauses'', ''Indemnity'', ''Termination'', ''Jurisdiction'', ''IP Rights'',
        ''Confidentiality'']"
    by (simp add: risk_categories_def)
  have general: "get_risk_category clause = ''General''"
    if "\<forall>(category, keywords)\<in>set risk_categories.
          \<forall>k\<in>set keywords. \<not> sublist k (lower clause)"
  proof -
    from that
    have "find (\<lambda>(category, keywords). \<exists>k\<in>set keywords. sublist k (lower clause))
             risk_categories = None"
      by (auto simp add: find_None_iff)
    then show ?thesis by (simp add: first)
  qed
  have penalty: "get_risk_category clause = ''Penalty Clauses''"
    if "sublist ''penalty'' (lower clause)"
    using that by (simp add: get_risk_category_def risk_categories_def)
  have "lower ''penalty'' = ''penalty''" by code_simp
  then have penalty': "get_risk_category clause = ''Penalty Clauses''"
    if "sublist ''penalty'' clause"
    using sublist_lower [OF that] penalty by simp
  from first names general penalty penalty' show ?thesis by blast
qed

theorem category_order_witness:
  "get_risk_category penalty_indemnify_clause = ''Penalty Clauses''
   \<and> sublist ''penalty'' (lower penalty_indemnify_clause)
   \<and> sublist ''indemnify'' (lower penalty_indemnify_clause)
   \<and> get_risk_category plain_clause = ''General''
   \<and> get_risk_category ''a penalty; we indemnify'' = ''Penalty Clauses''"
proof -
  have a: "sublist ''penalty'' (lower penalty_indemnify_clause)" by code_simp
  have b: "sublist ''indemnify'' (lower penalty_indemnify_clause)" by code_simp
  have c: "\<forall>(category, keywords)\<in>set risk_categories.
             \<forall>k\<in>set keywords. \<not> sublist k (lower plain_clause)"
    by code_simp
  have d: "sublist ''penalty'' ''a penalty; we indemnify''" by code_simp
  have e: "sublist ''indemnify'' ''a penalty; we indemnify''" by code_simp
  from a b c d e category_order [of penalty_indemnify_clause] category_order [of plain_clause]
    category_order [of "''a penalty; we indemnify''"]
  show ?thesis by blast
qed

section \<open>The analysis loop and the provider\<close>

lemma explain_clause_calls:
  "snd (explain_clause self clause calls) =
     (if has_openai self \<and> self_client self \<noteq> None then Suc calls else calls)"
  by (auto simp add: explain_clause_def split: option.splits outcome.splits)

lemma suggest_alternative_calls:
  "snd (suggest_alternative self clause calls) =
     (if has_openai self \<and> self_client self \<noteq> None then Suc calls else calls)"
  by (auto simp add: suggest_alternative_def split: option.splits outcome.splits)

lemma analyze_clauses_Cons:
  "analyze_clauses self i (clause # rest) calls =
     (\<lparr>clause_number = i + 1,
       text_field = take 100 clause @ ''...'',
       risk_level = assess_clause_risk clause,
       risk_category = get_risk_category clause,
       explanation = fst (explain_clause self clause calls),
       suggestion = fst (suggest_alternative self clause (snd (explain_clause self clause calls)))\<rparr>
      # fst (analyze_clauses self (i + 1) rest
             (snd (suggest_alternative self clause (snd (explain_clause self clause calls))))),
      snd (analyze_clauses self (i + 1) rest
             (snd (suggest_alternative self clause (snd (explain_clause self clause calls))))))"
  by (simp add: Let_def split: prod.splits)

lemma analyze_clauses_length:
  "length (fst (analyze_clauses self i clauses calls)) = length clauses"
  by (induction clauses arbitrary: i calls) (simp_all add: analyze_clauses_Cons del: analyze_clauses.simps(2))

lemma analyze_clauses_calls:
  "snd (analyze_clauses self i clauses calls) =
     (if has_openai self \<and> self_client self \<noteq> None then calls + 2 * length clauses else calls)"
  by (induction clauses arbitrary: i calls)
     (auto simp add: analyze_clauses_Cons explain_clause_calls suggest_alternative_calls
        simp del: analyze_clauses.simps(2))

lemma analyze_clauses_nth:
  "k < length clauses \<Longrightarrow>
   fst (analyze_clauses self i clauses calls) ! k =
     \<lparr>clause_number = i + k + 1,
      text_field = take 100 (clauses ! k) @ ''...'',
      risk_level = assess_clause_risk (clauses ! k),
      risk_category = get_risk_category (clauses ! k),
      explanation =
        fst (explain_clause self (clauses ! k)
               (snd (analyze_clauses self i (take k clauses) calls))),
      suggestion =
        fst (suggest_alternative self (clauses ! k)
               (snd (explain_clause self (clauses ! k)
                       (snd (analyze_clauses self i (take k clauses) calls)))))\<rparr>"
proof (induction clauses arbitrary: i calls k)
  case Nil
  then show ?case by simp
next
  case (Cons clause rest)
  show ?case
  proof (cases k)
    case 0
    then show ?thesis by (simp add: analyze_clauses_Cons del: analyze_clauses.simps(2))
  next
    case (Suc j)
    with Cons.prems have "j < length rest" by simp
    from Cons.IH [OF this] Suc show ?thesis
      by (simp add: analyze_clauses_Cons analyze_clauses_calls del: analyze_clauses.simps(2))
  qed
qed

lemma analyze_clauses_levels:
  "map risk_level (fst (analyze_clauses self i clauses calls)) = map assess_clause_risk clauses"
  by (rule nth_equalityI) (simp_all add: analyze_clauses_length analyze_clauses_nth)

lemma messages_distinct:
  "distinct [explain_not_configured, authentication_failed, rate_limit_exceeded,
             explain_unavailable error_name]"
  "distinct [suggest_not_configured, authentication_failed, rate_limit_exceeded,
             suggest_unavailable error_name]"
  by (simp_all add: explain_not_configured_def suggest_not_configured_def
      authentication_failed_def rate_limit_exceeded_def explain_unavailable_def
      suggest_unavailable_def)

text \<open>
  Claim C9. Without a configured client \<^verbatim>\<open>explain_clause\<close> and \<^verbatim>\<open>suggest_alternative\<close>
  return their not-configured message and make no call. When the call raises, they return
  the authentication message for an error whose type name contains \<open>AuthenticationError\<close>,
  the rate-limit message for one whose name contains \<open>RateLimitError\<close>, and otherwise the
  message that carries the error name; the four messages are different from one another.
  Each function makes at most one call, so nothing is tried again. The analysis loop
  returns one result per clause whatever the outcomes of the calls, with the risk level
  of each clause, and makes at most two calls per clause.
\<close>

theorem provider_failures_degrade:
  "(self_client self = None \<or> \<not> has_openai self \<longrightarrow>
      explain_clause self clause calls = (explain_not_configured, calls)
      \<and> suggest_alternative self clause calls = (suggest_not_configured, calls))
   \<and> (has_openai self \<and> self_client self = Some create
        \<and> create calls (ExplainRequest clause) = Raised error_name \<longrightarrow>
      explain_clause self clause calls =
        (if sublist ''AuthenticationError'' error_name then authentication_failed
         else if sublist ''RateLimitError'' error_name then rate_limit_exceeded
         else explain_unavailable error_name, Suc calls))
   \<and> (has_openai self \<and> self_client self = Some create
        \<and> create calls (SuggestRequest clause) = Raised error_name \<longrightarrow>
      suggest_alternative self clause calls =
        (if sublist ''AuthenticationError'' error_name then authentication_failed
         else if sublist ''RateLimitError'' error_name then rate_limit_exceeded
         else suggest_unavailable error_name, Suc calls))
   \<and> distinct [explain_not_configured, authentication_failed, rate_limit_exceeded,
               explain_unavailable error_name]
   \<and> distinct [suggest_not_configured, authentication_failed, rate_limit_exceeded,
               suggest_unavailable error_name]
   \<and> snd (explain_clause self clause calls) \<le> Suc calls
   \<and> snd (suggest_alternative self clause calls) \<le> Suc calls
   \<and> length (fst (analyze_clauses self i clauses calls)) = length clauses
   \<and> map risk_level (fst (analyze_clauses self i clauses calls))
       = map assess_clause_risk clauses
   \<and> snd (analyze_clauses self i clauses calls) \<le> calls + 2 * length clauses"
proof -
  have levels: "map risk_level (fst (analyze_clauses self i clauses calls))
       = map assess_clause_risk clauses"
    by (rule nth_equalityI) (simp_all add: analyze_clauses_length analyze_clauses_nth)
  have unconfigured: "explain_clause self clause calls = (explain_not_configured, calls)
      \<and> suggest_alternative self clause calls = (suggest_not_configured, calls)"
    if "self_client self = None \<or> \<not> has_openai self"
    using that by (auto simp add: explain_clause_def suggest_alternative_def split: option.splits)
  have explain: "explain_clause self clause calls =
        (if sublist ''AuthenticationError'' error_name then authentication_failed
         else if sublist ''RateLimitError'' error_name then rate_limit_exceeded
         else explain_unavailable error_name, Suc calls)"
    if "has_openai self" "self_client self = Some create"
      "create calls (ExplainRequest clause) = Raised error_name"
    using that by (simp add: explain_clause_def)
  have suggest: "suggest_alternative self clause calls =
        (if sublist ''AuthenticationError'' error_name then authentication_failed
         else if sublist ''RateLimitError'' error_name then rate_limit_exceeded
         else suggest_unavailable error_name, Suc calls)"
    if "has_openai self" "self_client self = Some create"
      "create calls (SuggestRequest clause) = Raised error_name"
    using that by (simp add: suggest_alternative_def)
  have counts: "snd (explain_clause self clause calls) \<le> Suc calls"
    "snd (suggest_alternative self clause calls) \<le> Suc calls"
    "snd (analyze_clauses self i clauses calls) \<le> calls + 2 * length clauses"
    by (simp_all add: explain_clause_calls suggest_alternative_calls analyze_clauses_calls)
  from levels unconfigured explain suggest counts messages_distinct [of error_name]
    analyze_clauses_length [of self i clauses calls]
  show ?thesis by blast
qed

theorem provider_failures_degrade_witness:
  "explain_clause unconfigured_analyzer plain_clause 0 = (explain_not_configured, 0)
   \<and> suggest_alternative unconfigured_analyzer plain_clause 0 = (suggest_not_configured, 0)
   \<and> explain_clause failing_analyzer plain_clause 0 = (authentication_failed, 1)
   \<and> suggest_alternative failing_analyzer plain_clause 1 = (rate_limit_exceeded, 2)
   \<and> explain_clause failing_analyzer plain_clause 2
       = (explain_unavailable ''APIConnectionError'', 3)
   \<and> length (fst (analyze_clauses failing_analyzer 0 [mutual_agreement_clause, plain_clause] 0))
       = 2
   \<and> map explanation
        (fst (analyze_clauses failing_analyzer 0 [mutual_agreement_clause, plain_clause] 0))
       = [authentication_failed, explain_unavailable ''APIConnectionError'']
   \<and> map suggestion
        (fst (analyze_clauses failing_analyzer 0 [mutual_agreement_clause, plain_clause] 0))
       = [rate_limit_exceeded, ''A balanced wording.'']"
proof -
  have run: "map explanation
        (fst (analyze_clauses failing_analyzer 0 [mutual_agreement_clause, plain_clause] 0))
       = [authentication_failed, explain_unavailable ''APIConnectionError'']
   \<and> map suggestion
        (fst (analyze_clauses failing_analyzer 0 [mutual_agreement_clause, plain_clause] 0))
       = [rate_limit_exceeded, ''A balanced wording.'']"
    by code_simp
  have other: "\<not> sublist ''AuthenticationError'' ''APIConnectionError''"
    "\<not> sublist ''RateLimitError'' ''APIConnectionError''"
    "\<not> sublist ''AuthenticationError'' ''RateLimitError''"
    by code_simp+
  show ?thesis
    using run other
      provider_failures_degrade [where self = unconfigured_analyzer and clause = plain_clause
        and calls = 0 and clauses = "[]"]
      provider_failures_degrade [where self = failing_analyzer and clause = plain_clause
        and calls = 0 and create = failing_client and error_name = "''AuthenticationError''"
        and i = 0 and clauses = "[mutual_agreement_clause, plain_clause]"]
      provider_failures_degrade [where self = failing_analyzer and clause = plain_clause
        and calls = 1 and create = failing_client and error_name = "''RateLimitError''"
        and clauses = "[]"]
      provider_failures_degrade [where self = failing_analyzer and clause = plain_clause
        and calls = 2 and create = failing_client and error_name = "''APIConnectionError''"
        and clauses = "[]"]
    by (simp add: unconfigured_analyzer_def failing_analyzer_def failing_client_def)
qed

text \<open>
  Claim C8, as stated, fails: the \<open>Text\<close> field of a result is not the clause's text. It
  holds the first 100 characters of the clause followed by three dots, for a short clause
  as for a long one.
\<close>

theorem record_text_counterexample:
  "text_field (fst (analyze_clauses unconfigured_analyzer 0 [plain_clause, long_clause] 0) ! 0)
     \<noteq> plain_clause
   \<and> text_field (fst (analyze_clauses unconfigured_analyzer 0 [plain_clause, long_clause] 0) ! 1)
     \<noteq> long_clause"
  by code_simp

text \<open>
  Claim C8, amended. The analysis loop returns one result per clause, in the order of the
  clauses. The result at position \<open>k\<close> (from 0) carries the clause number \<open>k + 1\<close>, the
  first 100 characters of the clause's text followed by \<open>...\<close>, the risk level and the
  risk category of the clause, and the explanation and the suggestion that the two
  provider functions return for the clause at that point of the run.
\<close>

theorem analysis_records:
  "length (fst (analyze_clauses self 0 clauses calls)) = length clauses
   \<and> (\<forall>k < length clauses.
        fst (analyze_clauses self 0 clauses calls) ! k =
          \<lparr>clause_number = k + 1,
           text_field = take 100 (clauses ! k) @ ''...'',
           risk_level = assess_clause_risk (clauses ! k),
           risk_category = get_risk_category (clauses ! k),
           explanation =
             fst (explain_clause self (clauses ! k)
                    (snd (analyze_clauses self 0 (take k clauses) calls))),
           suggestion =
             fst (suggest_alternative self (clauses ! k)
                    (snd (explain_clause self (clauses ! k)
                            (snd (analyze_clauses self 0 (take k clauses) calls)))))\<rparr>)"
  by (simp add: analyze_clauses_length analyze_clauses_nth)

theorem analysis_records_witness:
  "length (fst (analyze_clauses unconfigured_analyzer 0 [plain_clause, long_clause] 0)) = 2
   \<and> fst (analyze_clauses unconfigured_analyzer 0 [plain_clause, long_clause] 0) ! 1 =
       \<lparr>clause_number = 2,
        text_field = ''The Vendor shall indemnify the Client against all losses arising from any breach of this agreement b...'',
        risk_level = ''High'',
        risk_category = ''Indemnity'',
        explanation = explain_not_configured,
        suggestion = suggest_not_configured\<rparr>"
proof -
  have shown: "take 100 long_clause @ ''...'' = ''The Vendor shall indemnify the Client against all losses arising from any breach of this agreement b...''"
    by code_simp
  have level: "assess_clause_risk long_clause = ''High''" by code_simp
  have category: "get_risk_category long_clause = ''Indemnity''" by code_simp
  have unconfigured: "explain_clause unconfigured_analyzer c n = (explain_not_configured, n)"
    "suggest_alternative unconfigured_analyzer c n = (suggest_not_configured, n)" for c n
    by (simp_all add: explain_clause_def suggest_alternative_def unconfigured_analyzer_def)
  from analysis_records [of unconfigured_analyzer "[plain_clause, long_clause]" 0]
  have "fst (analyze_clauses unconfigured_analyzer 0 [plain_clause, long_clause] 0) ! 1 =
          \<lparr>clause_number = 1 + 1,
           text_field = take 100 ([plain_clause, long_clause] ! 1) @ ''...'',
           risk_level = assess_clause_risk ([plain_clause, long_clause] ! 1),
           risk_category = get_risk_category ([plain_clause, long_clause] ! 1),
           explanation =
             fst (explain_clause unconfigured_analyzer ([plain_clause, long_clause] ! 1)
                    (snd (analyze_clauses unconfigured_analyzer 0 (take 1 [plain_clause, long_clause]) 0))),
           suggestion =
             fst (suggest_alternative unconfigured_analyzer ([plain_clause, long_clause] ! 1)
                    (snd (explain_clause unconfigured_analyzer ([plain_clause, long_clause] ! 1)
                            (snd (analyze_clauses unconfigured_analyzer 0 (take 1 [plain_clause, long_clause]) 0)))))\<rparr>"
    by simp
  with analysis_records [of unconfigured_analyzer "[plain_clause, long_clause]" 0]
  show ?thesis
    by (simp add: shown level category unconfigured)
qed


section \<open>Segmentation by structural markers\<close>

lemma strip_empty_iff: "strip s = [] \<longleftrightarrow> (\<forall>c\<in>set s. is_space c)"
proof
  assume "strip s = []"
  then have all: "\<forall>c\<in>set (dropWhile is_space s). is_space c"
    by (simp add: strip_def dropWhile_eq_Nil_conv)
  have "dropWhile is_space s = []"
  proof (rule ccontr)
    assume ne: "dropWhile is_space s \<noteq> []"
    then have "\<not> is_space (hd (dropWhile is_space s))" by (rule hd_dropWhile)
    moreover from ne have "hd (dropWhile is_space s) \<in> set (dropWhile is_space s)" by simp
    ultimately show False using all by blast
  qed
  then show "\<forall>c\<in>set s. is_space c" by (simp add: dropWhile_eq_Nil_conv)
next
  assume "\<forall>c\<in>set s. is_space c"
  then have d: "dropWhile is_space s = []" by (induction s) simp_all
  show "strip s = []" unfolding strip_def d by simp
qed

lemma strip_idem: "strip (strip s) = strip s"
proof -
  define t where "t = dropWhile is_space s"
  define u where "u = rev (dropWhile is_space (rev t))"
  have su: "strip s = u" by (simp add: strip_def t_def u_def)
  have split: "t = u @ rev (takeWhile is_space (rev t))"
    unfolding u_def by (metis rev_append rev_rev_ident takeWhile_dropWhile_id)
  have front: "dropWhile is_space u = u"
  proof (cases "u = []")
    case True
    then show ?thesis by simp
  next
    case False
    with split have "hd u = hd t" by (metis hd_append2)
    moreover from False split have "t \<noteq> []" by auto
    then have "\<not> is_space (hd t)" unfolding t_def by (rule hd_dropWhile)
    ultimately show ?thesis using False by (simp add: dropWhile_eq_self_iff)
  qed
  have "strip u = rev (dropWhile is_space (rev u))" by (simp add: strip_def front)
  also have "rev u = dropWhile is_space (rev t)" by (simp add: u_def)
  also have "rev (dropWhile is_space (dropWhile is_space (rev t))) = u"
    by (simp add: u_def)
  finally show ?thesis by (simp add: su)
qed

lemma clean_clauses_filter:
  "clean_clauses clauses = filter (\<lambda>fragment. length fragment > 50) (map strip clauses)"
  by (induction clauses) (simp_all add: Let_def)

lemma re_split_from_nonempty: "re_split_from r piece s \<noteq> []"
  by (induction r piece s rule: re_split_from.induct) (simp_all split: option.splits)

lemma re_split_length: "1 \<le> length (re_split r s)"
  using re_split_from_nonempty [of r "[]" s]
  by (cases "re_split_from r [] s") (simp_all add: re_split_def)

lemma surviving_le: "length (surviving_fragments p t) \<le> length (re_split p t)"
  unfolding surviving_fragments_def
  by (metis length_filter_le length_map)

lemma try_patterns_find:
  "try_patterns patterns contract_text =
     (case find (\<lambda>p. length (surviving_fragments p contract_text) > 3) patterns of
        Some p \<Rightarrow> Some (surviving_fragments p contract_text)
      | None \<Rightarrow> None)"
proof (induction patterns)
  case Nil
  then show ?case by simp
next
  case (Cons p rest)
  have "\<not> length (surviving_fragments p contract_text) > 3"
    if "\<not> length (re_split p contract_text) > 1"
    using that surviving_le [of p contract_text] by simp
  with Cons show ?case
    by (auto simp add: Let_def clean_clauses_filter surviving_fragments_def)
qed

lemma surviving_trimmed:
  "c \<in> set (surviving_fragments p t) \<Longrightarrow> strip c = c \<and> length c > 50"
  by (auto simp add: surviving_fragments_def strip_idem)

lemma find_first:
  "i < length xs \<Longrightarrow> \<forall>x\<in>set (take i xs). \<not> P x \<Longrightarrow> P (xs ! i) \<Longrightarrow> find P xs = Some (xs ! i)"
proof (induction xs arbitrary: i)
  case Nil
  then show ?case by simp
next
  case (Cons x xs)
  then show ?case by (cases i) auto
qed

text \<open>
  Claim C1. The five patterns are tried in the order numbered markers, lettered markers,
  SECTION headers, ARTICLE headers, nested numbering. When the pattern at position \<open>i\<close> is
  the first one with more than 3 surviving fragments (the text split on every occurrence,
  each fragment trimmed, fragments of trimmed length 50 or less discarded), the clauses
  returned are exactly these surviving fragments: no later pattern and no sentence
  grouping contributes. Every clause returned this way has trimmed length above 50.
\<close>

theorem structural_segmentation:
  assumes "i < length clause_patterns"
    and "\<forall>p\<in>set (take i clause_patterns). length (surviving_fragments p contract_text) \<le> 3"
    and "length (surviving_fragments (clause_patterns ! i) contract_text) > 3"
  shows "clause_patterns =
           [numbered_pattern, lettered_pattern, section_pattern, article_pattern, nested_pattern]
     \<and> try_patterns clause_patterns contract_text
         = Some (surviving_fragments (clause_patterns ! i) contract_text)
     \<and> extract_clauses sent_tokenize contract_text
         = surviving_fragments (clause_patterns ! i) contract_text
     \<and> (\<forall>c\<in>set (extract_clauses sent_tokenize contract_text). length (strip c) > 50)"
proof -
  from assms(2) have "\<forall>p\<in>set (take i clause_patterns).
      \<not> length (surviving_fragments p contract_text) > 3"
    by (simp add: not_less)
  from find_first [of i clause_patterns "\<lambda>p. length (surviving_fragments p contract_text) > 3",
      OF assms(1) this assms(3)]
  have found: "try_patterns clause_patterns contract_text
         = Some (surviving_fragments (clause_patterns ! i) contract_text)"
    by (simp add: try_patterns_find)
  then have result: "extract_clauses sent_tokenize contract_text
         = surviving_fragments (clause_patterns ! i) contract_text"
    by (simp add: extract_clauses_def)
  have "\<forall>c\<in>set (surviving_fragments (clause_patterns ! i) contract_text). length (strip c) > 50"
    using surviving_trimmed by metis
  with found result show ?thesis by (simp add: clause_patterns_def)
qed


theorem structural_segmentation_witness:
  "extract_clauses full_stop_tokenize lettered_text =
     [''This Agreement sets out the terms agreed between the Supplier and the Buyer.'',
      ''The Supplier shall deliver the goods to the Buyer within thirty days.'',
      ''The Buyer shall pay the price within fourteen days of delivery.'',
      ''Title to the goods passes to the Buyer on payment in full.'',
      ''Either party may end this Agreement by written notice.'']
   \<and> length (surviving_fragments numbered_pattern lettered_text) \<le> 3"
proof -
  have position: "1 < length clause_patterns"
    by (simp add: clause_patterns_def)
  have earlier:
    "\<forall>p\<in>set (take 1 clause_patterns). length (surviving_fragments p lettered_text) \<le> 3"
    by code_simp
  have here: "length (surviving_fragments (clause_patterns ! 1) lettered_text) > 3"
    by code_simp
  have fragments: "surviving_fragments (clause_patterns ! 1) lettered_text =
     [''This Agreement sets out the terms agreed between the Supplier and the Buyer.'',
      ''The Supplier shall deliver the goods to the Buyer within thirty days.'',
      ''The Buyer shall pay the price within fourteen days of delivery.'',
      ''Title to the goods passes to the Buyer on payment in full.'',
      ''Either party may end this Agreement by written notice.'']"
    by code_simp
  have first: "length (surviving_fragments numbered_pattern lettered_text) \<le> 3"
    by code_simp
  from structural_segmentation [OF position earlier here, of full_stop_tokenize] fragments first
  show ?thesis by simp
qed

section \<open>Segmentation by sentence grouping\<close>

lemma group_sentences_groups:
  "group_sentences sentences current = map join_spaces (sentence_groups sentences current)"
  by (induction sentences arbitrary: current) (simp_all add: Let_def)

lemma sentence_groups_concat:
  "concat (sentence_groups sentences current) = current @ sentences"
  by (induction sentences arbitrary: current) (simp_all add: Let_def)

lemma sentence_groups_shape:
  "length current < 3 \<Longrightarrow> \<forall>s\<in>set current. \<not> ends_with_colon s \<Longrightarrow>
   \<forall>g\<in>set (sentence_groups sentences current).
     g \<noteq> [] \<and> length g \<le> 3 \<and> (\<forall>s\<in>set (butlast g). \<not> ends_with_colon s)"
proof (induction sentences arbitrary: current)
  case Nil
  then show ?case by (auto dest: in_set_butlastD)
next
  case (Cons sentence rest)
  show ?case
  proof (cases "length (current @ [sentence]) \<ge> 3 \<or> ends_with_colon sentence")
    case True
    from Cons.IH [of "[]"] Cons.prems True show ?thesis
      by (auto simp add: Let_def butlast_append)
  next
    case False
    with Cons.prems have "length (current @ [sentence]) < 3"
      and "\<forall>s\<in>set (current @ [sentence]). \<not> ends_with_colon s"
      by auto
    from Cons.IH [OF this] False show ?thesis by (simp add: Let_def)
  qed
qed

lemma sentence_groups_closed:
  "length current < 3 \<Longrightarrow>
   \<forall>g\<in>set (butlast (sentence_groups sentences current)).
     length g = 3 \<or> ends_with_colon (last g)"
proof (induction sentences arbitrary: current)
  case Nil
  then show ?case by simp
next
  case (Cons sentence rest)
  show ?case
  proof (cases "length (current @ [sentence]) \<ge> 3 \<or> ends_with_colon sentence")
    case True
    from Cons.IH [of "[]"] Cons.prems True show ?thesis
      by (auto simp add: Let_def)
  next
    case False
    then have "length (current @ [sentence]) < 3" by auto
    from Cons.IH [OF this] False show ?thesis by (simp add: Let_def)
  qed
qed

lemma try_patterns_None:
  "\<forall>p\<in>set patterns. length (surviving_fragments p contract_text) \<le> 3 \<Longrightarrow>
   try_patterns patterns contract_text = None"
  by (simp add: try_patterns_find find_None_iff not_less split: option.splits)

text \<open>
  Claim C4. When no pattern has more than 3 surviving fragments, the clauses are those of
  the sentence grouping of the tokenizer's sentences. The sentences fall, in order, into
  consecutive groups, each joined by single spaces into one clause. A group is closed as
  soon as it holds 3 sentences or its newest sentence ends with a colon or semicolon: so
  no group is empty or longer than 3, no sentence but the last of a group ends with a
  colon or semicolon, and every group but the last holds 3 sentences or ends with such a
  sentence; the last group is whatever remains.
\<close>

theorem fallback_grouping:
  assumes "\<forall>p\<in>set clause_patterns. length (surviving_fragments p contract_text) \<le> 3"
  shows "extract_clauses sent_tokenize contract_text
           = group_sentences (sent_tokenize contract_text) []
     \<and> (\<exists>groups.
          concat groups = sent_tokenize contract_text
          \<and> extract_clauses sent_tokenize contract_text = map join_spaces groups
          \<and> (\<forall>g\<in>set groups.
                g \<noteq> [] \<and> length g \<le> 3 \<and> (\<forall>s\<in>set (butlast g). \<not> ends_with_colon s))
          \<and> (\<forall>g\<in>set (butlast groups). length g = 3 \<or> ends_with_colon (last g)))"
proof -
  let ?sentences = "sent_tokenize contract_text"
  let ?groups = "sentence_groups ?sentences []"
  from assms have fallback: "extract_clauses sent_tokenize contract_text
           = group_sentences ?sentences []"
    by (simp add: extract_clauses_def try_patterns_None)
  have "concat ?groups = ?sentences"
    by (simp add: sentence_groups_concat)
  moreover have "extract_clauses sent_tokenize contract_text = map join_spaces ?groups"
    by (simp add: fallback group_sentences_groups)
  moreover have "\<forall>g\<in>set ?groups.
      g \<noteq> [] \<and> length g \<le> 3 \<and> (\<forall>s\<in>set (butlast g). \<not> ends_with_colon s)"
    by (rule sentence_groups_shape) simp_all
  moreover have "\<forall>g\<in>set (butlast ?groups). length g = 3 \<or> ends_with_colon (last g)"
    by (rule sentence_groups_closed) simp
  ultimately show ?thesis using fallback by blast
qed

theorem fallback_grouping_witness:
  "extract_clauses (\<lambda>contract_text. fallback_sentences) (join_spaces fallback_sentences) =
     [''The parties agree as follows:'',
      ''Payment is due monthly. Invoices are sent by post. Interest accrues daily.'',
      ''Notices are sent by email.'']"
proof -
  have no_pattern: "\<forall>p\<in>set clause_patterns.
      length (surviving_fragments p (join_spaces fallback_sentences)) \<le> 3"
    by code_simp
  have grouped: "group_sentences fallback_sentences [] =
     [''The parties agree as follows:'',
      ''Payment is due monthly. Invoices are sent by post. Interest accrues daily.'',
      ''Notices are sent by email.'']"
    by code_simp
  from fallback_grouping [OF no_pattern, of "\<lambda>contract_text. fallback_sentences"] grouped
  show ?thesis by simp
qed

section \<open>What segmentation keeps\<close>

lemma join_spaces_Cons:
  "join_spaces (x # xs) = (if xs = [] then x else x @ '' '' @ join_spaces xs)"
  by (cases xs) simp_all

lemma join_spaces_append:
  "xs \<noteq> [] \<Longrightarrow> ys \<noteq> [] \<Longrightarrow> join_spaces (xs @ ys) = join_spaces xs @ '' '' @ join_spaces ys"
  by (induction xs) (simp_all add: join_spaces_Cons)

lemma group_sentences_empty_iff:
  "group_sentences sentences current = [] \<longleftrightarrow> sentences = [] \<and> current = []"
  by (induction sentences arbitrary: current) (simp_all add: Let_def)

lemma join_group_sentences:
  "join_spaces (group_sentences sentences current) = join_spaces (current @ sentences)"
proof (induction sentences arbitrary: current)
  case Nil
  then show ?case by simp
next
  case (Cons sentence rest)
  show ?case
  proof (cases "length (current @ [sentence]) \<ge> 3 \<or> ends_with_colon sentence")
    case True
    have "join_spaces ((current @ [sentence]) @ rest)
        = (if rest = [] then join_spaces (current @ [sentence])
           else join_spaces (current @ [sentence]) @ '' '' @ join_spaces rest)"
      using join_spaces_append [of "current @ [sentence]" rest] by simp
    with True Cons.IH [of "[]"] show ?thesis
      by (simp add: Let_def join_spaces_Cons group_sentences_empty_iff)
  next
    case False
    with Cons.IH [of "current @ [sentence]"] show ?thesis by (simp add: Let_def)
  qed
qed

lemma set_join_spaces: "s \<in> set g \<Longrightarrow> set s \<subseteq> set (join_spaces g)"
  by (induction g rule: join_spaces.induct) auto

lemma group_sentences_not_blank:
  assumes "\<forall>s\<in>set (current @ sentences). strip s \<noteq> []"
  shows "\<forall>c\<in>set (group_sentences sentences current). strip c \<noteq> []"
proof
  fix c
  assume "c \<in> set (group_sentences sentences current)"
  then obtain g where g: "g \<in> set (sentence_groups sentences current)" and c: "c = join_spaces g"
    by (auto simp add: group_sentences_groups)
  have "set (concat (sentence_groups sentences current)) = set (current @ sentences)"
    by (simp only: sentence_groups_concat)
  with g have sub: "set g \<subseteq> set (current @ sentences)" by auto
  have "g \<noteq> []"
  proof
    assume "g = []"
    with g have "[] \<in> set (sentence_groups sentences current)" by simp
    then show False
      by (induction sentences arbitrary: current) (auto simp add: Let_def split: if_splits)
  qed
  then obtain s where s: "s \<in> set g" by (cases g) auto
  with sub assms have "strip s \<noteq> []" by blast
  then obtain ch where "ch \<in> set s" "\<not> is_space ch" by (auto simp add: strip_empty_iff)
  with set_join_spaces [OF s] have "ch \<in> set c" "\<not> is_space ch" by (auto simp add: c)
  then show "strip c \<noteq> []" by (auto simp add: strip_empty_iff)
qed

lemma try_patterns_Some:
  "try_patterns patterns contract_text = Some clauses \<Longrightarrow>
   \<exists>p\<in>set patterns. clauses = surviving_fragments p contract_text"
  by (auto simp add: try_patterns_find find_Some_iff split: option.splits)

text \<open>
  Claim C7, as stated, fails. In the text below the numbered pattern is accepted, with
  four fragments longer than 50 characters; the fragment \<open>Fees: see Annex Z.\<close> lies
  between two markers, is shorter, and is dropped. Its letter \<open>Z\<close> is neither white space
  nor part of a marker, occurs in the text, and occurs in no clause returned.
\<close>

theorem dropped_fragment_counterexample:
  "dropped_fragment_text \<noteq> []
   \<and> re_split numbered_pattern dropped_fragment_text =
     [''1. The Supplier shall deliver the goods to the Buyer within thirty days.'',
      ''The Buyer shall pay the price within fourteen days of delivery.'',
      ''Fees: see Annex Z.'',
      ''Title to the goods passes to the Buyer on payment in full.'',
      ''Either party may end this Agreement by giving written notice.'']
   \<and> extract_clauses full_stop_tokenize dropped_fragment_text =
     [''1. The Supplier shall deliver the goods to the Buyer within thirty days.'',
      ''The Buyer shall pay the price within fourteen days of delivery.'',
      ''Title to the goods passes to the Buyer on payment in full.'',
      ''Either party may end this Agreement by giving written notice.'']
   \<and> CHR ''Z'' \<in> set dropped_fragment_text
   \<and> \<not> is_space (CHR ''Z'')
   \<and> CHR ''Z'' \<notin> set (concat (extract_clauses full_stop_tokenize dropped_fragment_text))"
  by code_simp

text \<open>
  Claim C7, amended. On the structural path the clauses returned are exactly the trimmed
  fragments of the accepted pattern that are longer than 50 characters, in order; each is
  trimmed, longer than 50 characters and so not empty after trimming. Fragments of
  trimmed length 50 or less are dropped. On the fallback path the clauses, joined by
  single spaces, are the tokenizer's sentences joined by single spaces, so no sentence is
  lost; and no clause is empty after trimming when no sentence is.
\<close>

theorem segmentation_content:
  "(try_patterns clause_patterns contract_text = Some clauses \<longrightarrow>
      extract_clauses sent_tokenize contract_text = clauses
      \<and> (\<exists>p\<in>set clause_patterns. clauses = surviving_fragments p contract_text)
      \<and> (\<forall>c\<in>set clauses. strip c \<noteq> [] \<and> strip c = c \<and> length c > 50))
   \<and> (try_patterns clause_patterns contract_text = None \<longrightarrow>
      extract_clauses sent_tokenize contract_text
        = group_sentences (sent_tokenize contract_text) []
      \<and> join_spaces (extract_clauses sent_tokenize contract_text)
        = join_spaces (sent_tokenize contract_text)
      \<and> ((\<forall>s\<in>set (sent_tokenize contract_text). strip s \<noteq> []) \<longrightarrow>
          (\<forall>c\<in>set (extract_clauses sent_tokenize contract_text). strip c \<noteq> [])))"
proof -
  have structural: "extract_clauses sent_tokenize contract_text = clauses
      \<and> (\<exists>p\<in>set clause_patterns. clauses = surviving_fragments p contract_text)
      \<and> (\<forall>c\<in>set clauses. strip c \<noteq> [] \<and> strip c = c \<and> length c > 50)"
    if some: "try_patterns clause_patterns contract_text = Some clauses"
  proof -
    from try_patterns_Some [OF some] obtain p
      where p: "clauses = surviving_fragments p contract_text" and "p \<in> set clause_patterns"
      by blast
    have "strip c \<noteq> [] \<and> strip c = c \<and> length c > 50" if "c \<in> set clauses" for c
      using surviving_trimmed [of c p contract_text] that p by auto
    with some p \<open>p \<in> set clause_patterns\<close> show ?thesis
      by (auto simp add: extract_clauses_def)
  qed
  have fallback: "extract_clauses sent_tokenize contract_text
        = group_sentences (sent_tokenize contract_text) []
      \<and> join_spaces (extract_clauses sent_tokenize contract_text)
        = join_spaces (sent_tokenize contract_text)
      \<and> ((\<forall>s\<in>set (sent_tokenize contract_text). strip s \<noteq> []) \<longrightarrow>
          (\<forall>c\<in>set (extract_clauses sent_tokenize contract_text). strip c \<noteq> []))"
    if none: "try_patterns clause_patterns contract_text = None"
  proof -
    from none have eq: "extract_clauses sent_tokenize contract_text
        = group_sentences (sent_tokenize contract_text) []"
      by (simp add: extract_clauses_def)
    then show ?thesis
      using group_sentences_not_blank [of "[]" "sent_tokenize contract_text"]
      by (simp add: join_group_sentences)
  qed
  from structural fallback show ?thesis by blast
qed

theorem segmentation_content_witness:
  "extract_clauses full_stop_tokenize dropped_fragment_text =
     [''1. The Supplier shall deliver the goods to the Buyer within thirty days.'',
      ''The Buyer shall pay the price within fourteen days of delivery.'',
      ''Title to the goods passes to the Buyer on payment in full.'',
      ''Either party may end this Agreement by giving written notice.'']
   \<and> surviving_fragments numbered_pattern dropped_fragment_text =
     [''1. The Supplier shall deliver the goods to the Buyer within thirty days.'',
      ''The Buyer shall pay the price within fourteen days of delivery.'',
      ''Title to the goods passes to the Buyer on payment in full.'',
      ''Either party may end this Agreement by giving written notice.'']
   \<and> join_spaces (extract_clauses full_stop_tokenize scenario_line)
       = join_spaces (full_stop_tokenize scenario_line)
   \<and> list_all (\<lambda>c. strip c \<noteq> []) (extract_clauses full_stop_tokenize scenario_line)"
proof -
  have accepted: "try_patterns clause_patterns dropped_fragment_text = Some
     [''1. The Supplier shall deliver the goods to the Buyer within thirty days.'',
      ''The Buyer shall pay the price within fourteen days of delivery.'',
      ''Title to the goods passes to the Buyer on payment in full.'',
      ''Either party may end this Agreement by giving written notice.'']"
    by code_simp
  have fragments: "surviving_fragments numbered_pattern dropped_fragment_text =
     [''1. The Supplier shall deliver the goods to the Buyer within thirty days.'',
      ''The Buyer shall pay the price within fourteen days of delivery.'',
      ''Title to the goods passes to the Buyer on payment in full.'',
      ''Either party may end this Agreement by giving written notice.'']"
    by code_simp
  have fallback: "try_patterns clause_patterns scenario_line = None"
    by code_simp
  have sentences: "\<forall>s\<in>set (full_stop_tokenize scenario_line). strip s \<noteq> []"
    by code_simp
  from segmentation_content [of dropped_fragment_text _ full_stop_tokenize] accepted
  have one: "extract_clauses full_stop_tokenize dropped_fragment_text =
     [''1. The Supplier shall deliver the goods to the Buyer within thirty days.'',
      ''The Buyer shall pay the price within fourteen days of delivery.'',
      ''Title to the goods passes to the Buyer on payment in full.'',
      ''Either party may end this Agreement by giving written notice.'']"
    by simp
  from segmentation_content [of scenario_line "[]" full_stop_tokenize] fallback sentences
  have two: "join_spaces (extract_clauses full_stop_tokenize scenario_line)
       = join_spaces (full_stop_tokenize scenario_line)
     \<and> (\<forall>c\<in>set (extract_clauses full_stop_tokenize scenario_line). strip c \<noteq> [])"
    by blast
  from one two fragments show ?thesis by (simp add: list_all_iff)
qed

section \<open>The end-to-end scenario\<close>

text \<open>
  Every structural pattern starts with a newline. A text without a newline is therefore
  never split, and its clauses are the sentence groups of the fallback: \<open>n\<close> sentences, none
  ending with a colon or semicolon, give \<open>n\<close> over 3, rounded up, clauses.
\<close>

lemma split_without_newline:
  "newline \<notin> set s \<Longrightarrow> re_split_from (One (Lit newline) # r) piece s = [rev piece @ s]"
  by (induction s arbitrary: piece) auto

lemma clause_patterns_need_newline:
  "p \<in> set clause_patterns \<Longrightarrow> \<exists>r. p = One (Lit newline) # r"
  by (auto simp add: clause_patterns_def numbered_pattern_def lettered_pattern_def
      section_pattern_def article_pattern_def nested_pattern_def)

lemma no_newline_no_structure:
  assumes "newline \<notin> set contract_text"
  shows "try_patterns clause_patterns contract_text = None"
proof (rule try_patterns_None, rule ballI)
  fix p
  assume "p \<in> set clause_patterns"
  then obtain r where "p = One (Lit newline) # r"
    using clause_patterns_need_newline by blast
  with assms have "re_split p contract_text = [contract_text]"
    by (simp add: re_split_def split_without_newline)
  then show "length (surviving_fragments p contract_text) \<le> 3"
    by (simp add: surviving_fragments_def)
qed

lemma group_sentences_count:
  "length current < 3 \<Longrightarrow> \<forall>s\<in>set sentences. \<not> ends_with_colon s \<Longrightarrow>
   length (group_sentences sentences current) = (length current + length sentences + 2) div 3"
proof (induction sentences arbitrary: current)
  case Nil
  then show ?case by (cases current) auto
next
  case (Cons sentence rest)
  show ?case
  proof (cases "length (current @ [sentence]) \<ge> 3")
    case True
    with Cons.prems have "length current = 2" by simp
    with Cons.IH [of "[]"] Cons.prems True show ?thesis by (simp add: Let_def)
  next
    case False
    then have "length (current @ [sentence]) < 3" by simp
    from Cons.IH [OF this] Cons.prems False show ?thesis by (simp add: Let_def)
  qed
qed

lemma fallback_clause_count:
  assumes "newline \<notin> set contract_text"
    and "\<forall>s\<in>set (sent_tokenize contract_text). \<not> ends_with_colon s"
  shows "length (extract_clauses sent_tokenize contract_text)
           = (length (sent_tokenize contract_text) + 2) div 3"
  using assms
  by (simp add: extract_clauses_def no_newline_no_structure group_sentences_count)

lemma analyze_contract_length:
  "length (fst (analyze_contract analyzer sent_tokenize contract_text))
     = length (extract_clauses sent_tokenize contract_text)"
  by (simp add: analyze_contract_def Let_def analyze_clauses_length)

text \<open>
  Claim C6, as stated, fails. The scenario text as the specification writes it, on a single
  line, holds no newline, so no structural pattern splits it and the numbered clauses are
  not found. Segmentation falls back to sentence grouping, which groups three sentences at
  a time; four clauses would need ten to twelve sentences. With the text split at its full
  stops, of which there are eight, the pipeline returns three clauses.
\<close>

theorem one_line_scenario_counterexample:
  "newline \<notin> set scenario_line
   \<and> try_patterns clause_patterns scenario_line = None
   \<and> extract_clauses full_stop_tokenize scenario_line =
     [''1. The Employer may terminate without cause, as set out in the schedule to this agreement. 2.'',
      ''Confidentiality shall be indefinite, as set out in the schedule to this agreement. 3. Payment is due monthly, as set out in the schedule to this agreement.'',
      ''4. Either party may renew by mutual agreement, as set out in the schedule to this agreement.'']
   \<and> length (fst (analyze_contract unconfigured_analyzer full_stop_tokenize scenario_line)) = 3"
proof -
  have a: "newline \<notin> set scenario_line" by code_simp
  have b: "try_patterns clause_patterns scenario_line = None" by code_simp
  have c: "extract_clauses full_stop_tokenize scenario_line =
     [''1. The Employer may terminate without cause, as set out in the schedule to this agreement. 2.'',
      ''Confidentiality shall be indefinite, as set out in the schedule to this agreement. 3. Payment is due monthly, as set out in the schedule to this agreement.'',
      ''4. Either party may renew by mutual agreement, as set out in the schedule to this agreement.'']"
    by code_simp
  from a b c show ?thesis
    by (simp add: analyze_contract_length)
qed

text \<open>
  Claim C6, amended. For the scenario text in which every numbered clause stands on a line
  of its own and is padded to more than 50 characters, segmentation returns exactly 4
  clauses by the numbered-marker pattern, whatever the tokenizer and the provider do. The
  pipeline numbers them 1 to 4, classifies the first as \<open>High\<close>, the second as \<open>Medium\<close>
  and the third and fourth as \<open>Low\<close>, and the overall risk, from the mean 7/4, is
  \<open>Medium Risk\<close>.
\<close>

theorem numbered_scenario:
  "extract_clauses sent_tokenize scenario_text =
     [''1. The Employer may terminate without cause, as set out in the schedule to this agreement.'',
      ''Confidentiality shall be indefinite, as set out in the schedule to this agreement.'',
      ''Payment is due monthly, as set out in the schedule to this agreement.'',
      ''Either party may renew by mutual agreement, as set out in the schedule to this agreement.'']
   \<and> map clause_number (fst (analyze_contract analyzer sent_tokenize scenario_text))
       = [1, 2, 3, 4]
   \<and> map risk_level (fst (analyze_contract analyzer sent_tokenize scenario_text))
       = [''High'', ''Medium'', ''Low'', ''Low'']
   \<and> mean_weight [''High'', ''Medium'', ''Low'', ''Low''] = 7 / 4
   \<and> snd (analyze_contract analyzer sent_tokenize scenario_text) = ''Medium Risk''"
proof -
  let ?clauses = "[''1. The Employer may terminate without cause, as set out in the schedule to this agreement.'',
       ''Confidentiality shall be indefinite, as set out in the schedule to this agreement.'',
       ''Payment is due monthly, as set out in the schedule to this agreement.'',
       ''Either party may renew by mutual agreement, as set out in the schedule to this agreement.'']"
  have accepted: "try_patterns clause_patterns scenario_text = Some ?clauses"
    by code_simp
  then have clauses: "extract_clauses sent_tokenize scenario_text = ?clauses"
    by (simp add: extract_clauses_def)
  have levels: "map assess_clause_risk ?clauses = [''High'', ''Medium'', ''Low'', ''Low'']"
    by code_simp
  have results: "fst (analyze_contract analyzer sent_tokenize scenario_text)
      = fst (analyze_clauses analyzer 0 ?clauses 0)"
    by (simp add: analyze_contract_def clauses Let_def)
  have risk: "map risk_level (fst (analyze_contract analyzer sent_tokenize scenario_text))
       = [''High'', ''Medium'', ''Low'', ''Low'']"
    by (simp only: results analyze_clauses_levels levels)
  have mean: "mean_weight [''High'', ''Medium'', ''Low'', ''Low''] = 7 / 4"
    by (simp add: mean_weight_def level_weight_def)
  have "snd (analyze_contract analyzer sent_tokenize scenario_text)
      = calculate_overall_risk (fst (analyze_contract analyzer sent_tokenize scenario_text))"
    by (simp add: analyze_contract_def Let_def)
  then have overall: "snd (analyze_contract analyzer sent_tokenize scenario_text) = ''Medium Risk''"
    by (simp add: overall_by_mean risk mean)
  have numbers: "map clause_number (fst (analyze_contract analyzer sent_tokenize scenario_text))
       = [1, 2, 3, 4]"
    unfolding results
    by (rule nth_equalityI)
       (auto simp add: analyze_clauses_length analyze_clauses_nth less_Suc_eq
          simp del: analyze_clauses.simps)
  from clauses numbers risk mean overall show ?thesis by blast
qed


end
